theory Spec2Isabelle
  imports Complex_Main "HOL-Library.Word"
begin

section \<open>Values of the host language\<close>

text \<open>
  A JavaScript string is a sequence of UTF-16 code units, and \<open>.length\<close> counts code
  units. \<open>utf16\<close> writes an ASCII literal as such a sequence.
\<close>

type_synonym jsstring = "16 word list"

definition utf16 :: "string \<Rightarrow> jsstring" where
  "utf16 cs = map (\<lambda>c. of_nat (of_char c)) cs"

text \<open>
  \<open>String.prototype.trim\<close> removes the leading and trailing code units that are
  WhiteSpace or LineTerminator in ECMAScript: TAB, LF, VT, FF, CR, SP, NBSP, U+1680,
  U+2000 to U+200A, U+2028, U+2029, U+202F, U+205F, U+3000 and U+FEFF.
\<close>

definition isWhiteSpace :: "16 word \<Rightarrow> bool" where
  "isWhiteSpace c \<longleftrightarrow>
     c \<in> {0x9, 0xA, 0xB, 0xC, 0xD, 0x20, 0xA0, 0x1680, 0x2028, 0x2029, 0x202F, 0x205F,
          0x3000, 0xFEFF}
     \<or> (0x2000 \<le> c \<and> c \<le> 0x200A)"

definition trim :: "jsstring \<Rightarrow> jsstring" where
  "trim s = rev (dropWhile isWhiteSpace (rev (dropWhile isWhiteSpace s)))"

text \<open>
  The numbers of a weather record are only carried from the service to the display;
  nothing is computed with them.
\<close>

type_synonym number = real

record CurrentWeather =
  temperature :: number
  rainfall :: number

record Forecast =
  maxTemp :: number
  minTemp :: number
  rainfall :: number

record WeatherData =
  soilType :: jsstring
  current :: CurrentWeather
  forecast :: Forecast

datatype soil = Good | Low

datatype jsfile = File jsstring

text \<open>
  What a \<open>catch\<close> clause may receive. \<open>ErrorInstance m\<close> is a value for which
  \<open>error instanceof Error\<close> holds, with \<open>error.message = m\<close>. \<open>NonError p\<close> is any other
  thrown value; \<open>p\<close> is its own \<open>message\<close> property when it has one (a plain object
  \<open>{message: ...}\<close>), and \<open>None\<close> otherwise (the \<open>ProgressEvent\<close> of a failed file read).
\<close>

datatype thrown = ErrorInstance jsstring | NonError "jsstring option"

text \<open>A promise that has settled: fulfilled with a value, or rejected with a thrown value.\<close>

datatype 'a settled = Fulfilled 'a | Rejected thrown

text \<open>
  The keys the handlers pass to the translation function \<open>t\<close>. The function itself comes
  from \<open>useTranslations(language)\<close>, which is not part of the sources; it is a parameter
  \<open>tr\<close> of the model, from a language code and a key to the localized text.
\<close>

datatype tkey = UnknownError | PhotoError | AdviceError | Details

type_synonym translator = "jsstring \<Rightarrow> tkey \<Rightarrow> jsstring"

section \<open>The state of the component and of its environment\<close>

text \<open>
  A timer scheduled with \<open>window.setTimeout\<close>: its handle, the time at which it is due
  (milliseconds) and the \<open>locationText\<close> its callback closes over.
\<close>

record timer =
  handle :: nat
  due :: nat
  query :: jsstring

text \<open>An entry of the log of calls to \<open>fetchLocationData\<close>.\<close>

record lookup =
  issuedBy :: nat
  issuedAt :: nat
  arg :: jsstring

text \<open>
  A call of a one-shot flow that has not settled yet, with the variables its
  continuation closes over (language, location text).
\<close>

datatype call =
    GenerateCropAdvice jsstring jsstring WeatherData soil
  | FileToBase64 jsfile jsstring jsstring
  | GeneratePhotoAnalysis jsstring jsstring jsstring

text \<open>
  The first nine fields are the \<open>useState\<close> and \<open>useRef\<close> cells of \<open>App\<close>. The next
  three are the flags of the voice hook. The rest is the environment: the clock, the
  browser's timer table, the lookup requests awaiting a response (keyed by the handle of
  the timer that issued them), the log of all lookup requests issued, what was written to
  \<open>console.error\<close>, and the one-shot calls awaiting their result.
\<close>

record app =
  language :: jsstring
  locationText :: jsstring
  imageFile :: "jsfile option"
  result :: "jsstring option"
  isLoading :: bool
  weatherData :: "WeatherData option"
  isFetchingWeather :: bool
  soilCondition :: soil
  debounceTimeoutRef :: "nat option"
  isSessionActive :: bool
  isConnecting :: bool
  voiceError :: "jsstring option"
  now :: nat
  nextTimerId :: nat
  timers :: "timer list"
  inflight :: "(nat \<times> jsstring) list"
  lookups :: "lookup list"
  console :: "thrown list"
  pending :: "(nat \<times> call) list"
  nextCall :: nat

text \<open>
  The initial values of the hooks. Timer handles are positive integers, so the first
  handle is 1.
\<close>

definition init :: app where
  "init = \<lparr>language = utf16 ''en'', locationText = [], imageFile = None, result = None,
            isLoading = False, weatherData = None, isFetchingWeather = False,
            soilCondition = Good, debounceTimeoutRef = None,
            isSessionActive = False, isConnecting = False, voiceError = None,
            now = 0, nextTimerId = 1, timers = [], inflight = [], lookups = [],
            console = [], pending = [], nextCall = 0\<rparr>"

section \<open>The debounced location resolver\<close>

text \<open>\<open>clearTimeout(h)\<close> removes the timer with handle \<open>h\<close>, if it is still pending.\<close>

definition clearTimeout :: "nat \<Rightarrow> app \<Rightarrow> app" where
  "clearTimeout h s = s\<lparr>timers := filter (\<lambda>t. handle t \<noteq> h) (timers s)\<rparr>"

text \<open>
  \<open>window.setTimeout(callback, delay)\<close> registers a timer for the callback, which closes
  over \<open>q\<close>, and returns its handle.
\<close>

definition setTimeout :: "jsstring \<Rightarrow> nat \<Rightarrow> app \<Rightarrow> nat \<times> app" where
  "setTimeout q delay s =
     (nextTimerId s,
      s\<lparr>timers := timers s @ [\<lparr>handle = nextTimerId s, due = now s + delay, query = q\<rparr>],
        nextTimerId := Suc (nextTimerId s)\<rparr>)"

text \<open>
  The body of the effect with dependency \<open>[locationText]\<close> (lines 27 to 49). The test
  \<open>if (debounceTimeoutRef.current)\<close> is a truthiness test: neither \<open>null\<close> nor 0.
\<close>

definition useEffect_locationText :: "app \<Rightarrow> app" where
  "useEffect_locationText s =
     (let s1 = (case debounceTimeoutRef s of
                  None \<Rightarrow> s
                | Some h \<Rightarrow> if h \<noteq> 0 then clearTimeout h s else s)
      in if 3 < length (trim (locationText s1)) then
           (let s2 = s1\<lparr>isFetchingWeather := True\<rparr>;
                s3 = s2\<lparr>weatherData := None\<rparr>;
                (h, s4) = setTimeout (locationText s3) 1500 s3
            in s4\<lparr>debounceTimeoutRef := Some h\<rparr>)
         else
           (let s2 = s1\<lparr>weatherData := None\<rparr>
            in s2\<lparr>isFetchingWeather := False\<rparr>))"

text \<open>
  A query change: the location text has become \<open>v\<close>, the component has rendered, and the
  effect runs.
\<close>

definition onQueryChange :: "jsstring \<Rightarrow> app \<Rightarrow> app" where
  "onQueryChange v s = useEffect_locationText (s\<lparr>locationText := v\<rparr>)"

text \<open>
  \<open>setLocationText(v)\<close> from the input's \<open>onChange\<close>. React does not render again, and
  does not run the effect, when the new value is the same as the old one.
\<close>

definition setLocationText :: "jsstring \<Rightarrow> app \<Rightarrow> app" where
  "setLocationText v s = (if v = locationText s then s else onQueryChange v s)"

text \<open>
  A timer fires: its callback starts, and calls \<open>fetchLocationData\<close> with the location
  text it closed over. The request then awaits its response.
\<close>

definition fire :: "timer \<Rightarrow> app \<Rightarrow> app" where
  "fire t s =
     s\<lparr>inflight := inflight s @ [(handle t, query t)],
       lookups := lookups s @ [\<lparr>issuedBy = handle t, issuedAt = due t, arg = query t\<rparr>]\<rparr>"

text \<open>
  \<open>d\<close> milliseconds pass. Every timer that becomes due fires, at the time it is due, in
  the order of scheduling (all timers have the same delay, so this is the order in which
  they become due).
\<close>

definition tick :: "nat \<Rightarrow> app \<Rightarrow> app" where
  "tick d s =
     (let expired = filter (\<lambda>t. due t \<le> now s + d) (timers s);
          s1 = s\<lparr>timers := filter (\<lambda>t. \<not> due t \<le> now s + d) (timers s), now := now s + d\<rparr>
      in fold fire expired s1)"

text \<open>
  The rest of the timer's callback (lines 36 to 43), run when the promise of
  \<open>fetchLocationData\<close> settles for the request issued by timer \<open>h\<close>: \<open>setWeatherData(data)\<close>
  on success, \<open>console.error(error)\<close> on failure, \<open>setIsFetchingWeather(false)\<close> in both
  cases. A settlement for a request that is not awaiting one does not happen.
\<close>

definition lookupSettles :: "nat \<Rightarrow> WeatherData settled \<Rightarrow> app \<Rightarrow> app" where
  "lookupSettles h outcome s =
     (case map_of (inflight s) h of
        None \<Rightarrow> s
      | Some q \<Rightarrow>
          (let s1 = s\<lparr>inflight := filter (\<lambda>r. fst r \<noteq> h) (inflight s)\<rparr>;
               s2 = (case outcome of
                       Fulfilled data \<Rightarrow> s1\<lparr>weatherData := Some data\<rparr>
                     | Rejected e \<Rightarrow> s1\<lparr>console := console s1 @ [e]\<rparr>)
           in s2\<lparr>isFetchingWeather := False\<rparr>))"

section \<open>The one-shot flows\<close>

text \<open>
  The \<open>catch\<close> blocks of both handlers (lines 86 to 88 and 101 to 103): the message is
  \<open>error.message\<close> when \<open>error instanceof Error\<close> and \<open>t('unknownError')\<close> otherwise, and
  the result is the template \<open>`${t(label)} \n${t('details')}: ${errorMessage}`\<close>.
\<close>

definition errorMessage :: "(tkey \<Rightarrow> jsstring) \<Rightarrow> thrown \<Rightarrow> jsstring" where
  "errorMessage t e = (case e of ErrorInstance m \<Rightarrow> m | NonError p \<Rightarrow> t UnknownError)"

definition failureText :: "(tkey \<Rightarrow> jsstring) \<Rightarrow> tkey \<Rightarrow> thrown \<Rightarrow> jsstring" where
  "failureText t label e =
     t label @ [0x20, 0x0A] @ t Details @ [0x3A, 0x20] @ errorMessage t e"

text \<open>Both handlers start a call and return at their first \<open>await\<close>.\<close>

definition startCall :: "call \<Rightarrow> app \<Rightarrow> app" where
  "startCall c s = s\<lparr>pending := pending s @ [(nextCall s, c)], nextCall := Suc (nextCall s)\<rparr>"

definition handleGetCropAdvice :: "app \<Rightarrow> app" where
  "handleGetCropAdvice s =
     (case weatherData s of
        None \<Rightarrow> s
      | Some w \<Rightarrow>
          startCall (GenerateCropAdvice (language s) (locationText s) w (soilCondition s))
            (s\<lparr>result := None, isLoading := True\<rparr>))"

definition handleImageAnalysis :: "app \<Rightarrow> app" where
  "handleImageAnalysis s =
     (case imageFile s of
        None \<Rightarrow> s
      | Some f \<Rightarrow>
          startCall (FileToBase64 f (language s) (locationText s))
            (s\<lparr>result := None, isLoading := True\<rparr>))"

text \<open>
  The continuation of a handler when the promise it awaits settles. A fulfilled file
  read goes on to the call of \<open>generatePhotoAnalysis\<close>; every other settlement ends the
  handler through its \<open>finally\<close> block.
\<close>

definition finish :: "jsstring \<Rightarrow> app \<Rightarrow> app" where
  "finish text s = (let s1 = s\<lparr>result := Some text\<rparr> in s1\<lparr>isLoading := False\<rparr>)"

definition callSettles :: "translator \<Rightarrow> nat \<Rightarrow> jsstring settled \<Rightarrow> app \<Rightarrow> app" where
  "callSettles tr c outcome s =
     (case map_of (pending s) c of
        None \<Rightarrow> s
      | Some k \<Rightarrow>
          (let s1 = s\<lparr>pending := filter (\<lambda>p. fst p \<noteq> c) (pending s)\<rparr>
           in case k of
                GenerateCropAdvice lang loc w sc \<Rightarrow>
                  (case outcome of
                     Fulfilled response \<Rightarrow> finish response s1
                   | Rejected e \<Rightarrow> finish (failureText (tr lang) AdviceError e) s1)
              | FileToBase64 f lang loc \<Rightarrow>
                  (case outcome of
                     Fulfilled imageBase64 \<Rightarrow>
                       s1\<lparr>pending := pending s1 @ [(c, GeneratePhotoAnalysis imageBase64 lang loc)]\<rparr>
                   | Rejected e \<Rightarrow> finish (failureText (tr lang) PhotoError e) s1)
              | GeneratePhotoAnalysis b64 lang loc \<Rightarrow>
                  (case outcome of
                     Fulfilled response \<Rightarrow> finish response s1
                   | Rejected e \<Rightarrow> finish (failureText (tr lang) PhotoError e) s1)))"

text \<open>
  The hook \<open>useVoiceInteraction\<close> is not among the sources. The spec gives it
  \<open>startSession(language, locationText)\<close>, \<open>stopSession()\<close>, the flags \<open>isConnecting\<close> and
  \<open>isSessionActive\<close>, an error channel, and an asynchronous callback that delivers the
  final response. The four definitions below, the three flags of the state (all off at the
  start) and the condition under which the callback is delivered (in \<open>step\<close>) stand for it.
\<close>

text \<open>
  Modelled from the spec: \<open>startSession\<close> of the voice hook. A started session is
  connecting until the service reports the connection or an error.
\<close>

definition startSession :: "jsstring \<Rightarrow> jsstring \<Rightarrow> app \<Rightarrow> app" where
  "startSession lang loc s = s\<lparr>isConnecting := True, voiceError := None\<rparr>"

text \<open>Modelled from the spec: \<open>stopSession\<close> of the voice hook. It ends the session.\<close>

definition stopSession :: "app \<Rightarrow> app" where
  "stopSession s = s\<lparr>isSessionActive := False, isConnecting := False\<rparr>"

text \<open>
  Modelled from the spec: the voice service reports the connection; the session becomes
  active.
\<close>

definition voiceConnected :: "app \<Rightarrow> app" where
  "voiceConnected s =
     (if isConnecting s then s\<lparr>isConnecting := False, isSessionActive := True\<rparr> else s)"

text \<open>
  Modelled from the spec: the error channel of the voice hook. An error ends the session
  and is shown under the voice button.
\<close>

definition voiceFails :: "jsstring \<Rightarrow> app \<Rightarrow> app" where
  "voiceFails msg s =
     (if isConnecting s \<or> isSessionActive s
      then s\<lparr>isConnecting := False, isSessionActive := False, voiceError := Some msg\<rparr>
      else s)"

text \<open>The callback and the handler of the voice button (lines 52 to 67).\<close>

definition handleFinalVoiceResponse :: "jsstring \<Rightarrow> app \<Rightarrow> app" where
  "handleFinalVoiceResponse aiResponse s = finish aiResponse s"

definition handleToggleVoice :: "app \<Rightarrow> app" where
  "handleToggleVoice s =
     (if isSessionActive s then stopSession s
      else startSession (language s) (locationText s) (s\<lparr>result := None, isLoading := True\<rparr>))"

text \<open>
  The controls. The advice button is rendered only while there is a weather record, the
  analysis button only while a file is selected, and both have \<open>disabled={isLoading}\<close>;
  the voice button has \<open>disabled={isConnecting}\<close>. A control that is not rendered or is
  disabled does not call its handler. The soil selector is rendered with the advice
  button.
\<close>

definition adviceButtonEnabled :: "app \<Rightarrow> bool" where
  "adviceButtonEnabled s \<longleftrightarrow> weatherData s \<noteq> None \<and> \<not> isLoading s"

definition analyzeButtonEnabled :: "app \<Rightarrow> bool" where
  "analyzeButtonEnabled s \<longleftrightarrow> imageFile s \<noteq> None \<and> \<not> isLoading s"

definition voiceButtonEnabled :: "app \<Rightarrow> bool" where
  "voiceButtonEnabled s \<longleftrightarrow> \<not> isConnecting s"

definition clickAdvice :: "app \<Rightarrow> app" where
  "clickAdvice s = (if adviceButtonEnabled s then handleGetCropAdvice s else s)"

definition clickAnalyze :: "app \<Rightarrow> app" where
  "clickAnalyze s = (if analyzeButtonEnabled s then handleImageAnalysis s else s)"

definition clickVoice :: "app \<Rightarrow> app" where
  "clickVoice s = (if voiceButtonEnabled s then handleToggleVoice s else s)"

section \<open>Runs\<close>

datatype event =
    SetLocationText jsstring
  | Tick nat
  | LookupSettles nat "WeatherData settled"
  | SetLanguage jsstring
  | SetSoilCondition soil
  | SelectFile "jsfile option"
  | ClickAdvice
  | ClickAnalyze
  | ClickVoice
  | CallSettles nat "jsstring settled"
  | VoiceConnected
  | VoiceFails jsstring
  | VoiceFinalResponse jsstring

text \<open>
  One event of a run. A change of the location text and the effect it triggers are one
  event. The services \<open>fetchLocationData\<close>, \<open>generateCropAdvice\<close> and
  \<open>generatePhotoAnalysis\<close> and the file reader are the environment: when, and with what,
  their promises settle is given by the events \<open>LookupSettles\<close> and \<open>CallSettles\<close>. The
  callback of the voice hook is delivered while a session is active (modelled from the
  spec, as above).
\<close>

fun step :: "translator \<Rightarrow> event \<Rightarrow> app \<Rightarrow> app" where
  "step tr (SetLocationText v) s = setLocationText v s"
| "step tr (Tick d) s = tick d s"
| "step tr (LookupSettles h outcome) s = lookupSettles h outcome s"
| "step tr (SetLanguage l) s = s\<lparr>language := l\<rparr>"
| "step tr (SetSoilCondition c) s = (if weatherData s \<noteq> None then s\<lparr>soilCondition := c\<rparr> else s)"
| "step tr (SelectFile f) s = s\<lparr>imageFile := f\<rparr>"
| "step tr ClickAdvice s = clickAdvice s"
| "step tr ClickAnalyze s = clickAnalyze s"
| "step tr ClickVoice s = clickVoice s"
| "step tr (CallSettles c outcome) s = callSettles tr c outcome s"
| "step tr VoiceConnected s = voiceConnected s"
| "step tr (VoiceFails msg) s = voiceFails msg s"
| "step tr (VoiceFinalResponse r) s = (if isSessionActive s then handleFinalVoiceResponse r s else s)"

definition run :: "translator \<Rightarrow> event list \<Rightarrow> app \<Rightarrow> app" where
  "run tr es s = fold (step tr) es s"

text \<open>
  The states the application can be in: those a run of events reaches from the initial
  state. (The effect also runs once when the component mounts; with the empty location
  text and no timer it changes nothing, see \<open>mount\<close> below.)
\<close>

definition reachable :: "translator \<Rightarrow> app \<Rightarrow> bool" where
  "reachable tr s \<longleftrightarrow> (\<exists>es. s = run tr es init)"

section \<open>Vocabulary for statements about runs\<close>

text \<open>
  A change event is a call of \<open>setLocationText\<close>; a lookup settlement is the arrival of a
  response or failure of \<open>fetchLocationData\<close>; the duration of an event is the time that
  passes in it.
\<close>

fun isChange :: "event \<Rightarrow> bool" where
  "isChange (SetLocationText v) = True"
| "isChange _ = False"

fun isLookupSettlement :: "event \<Rightarrow> bool" where
  "isLookupSettlement (LookupSettles h outcome) = True"
| "isLookupSettlement _ = False"

fun isTick :: "event \<Rightarrow> bool" where
  "isTick (Tick d) = True"
| "isTick _ = False"

fun duration :: "event \<Rightarrow> nat" where
  "duration (Tick d) = d"
| "duration _ = 0"

definition elapsed :: "event list \<Rightarrow> nat" where
  "elapsed es = sum_list (map duration es)"

text \<open>A quiet run has no change of the location text.\<close>

definition quiet :: "event list \<Rightarrow> bool" where
  "quiet es \<longleftrightarrow> list_all (\<lambda>e. \<not> isChange e) es"

text \<open>A calm run has, in addition, no lookup settlement.\<close>

definition calm :: "event list \<Rightarrow> bool" where
  "calm es \<longleftrightarrow> list_all (\<lambda>e. \<not> isChange e \<and> \<not> isLookupSettlement e) es"

text \<open>
  The invariant of the resolver: at most one timer is pending; a pending timer is the one
  the ref holds, it is for the current location text, it is not yet due, it is due within
  the delay and it has issued no request; handles in use are below the next handle; and
  the fetching flag is set only while a timer is pending or a request is awaiting its
  response for the current text.
\<close>

definition resolver_inv :: "app \<Rightarrow> bool" where
  "resolver_inv s \<longleftrightarrow>
     length (timers s) \<le> 1 \<and> nextTimerId s \<noteq> 0 \<and>
     (\<forall>t \<in> set (timers s).
        debounceTimeoutRef s = Some (handle t) \<and> handle t \<noteq> 0 \<and> handle t < nextTimerId s \<and>
        query t = locationText s \<and> now s < due t \<and> due t \<le> now s + 1500 \<and>
        handle t \<notin> issuedBy ` set (lookups s) \<and> handle t \<notin> fst ` set (inflight s)) \<and>
     (\<forall>l \<in> set (lookups s). issuedBy l < nextTimerId s) \<and>
     (\<forall>r \<in> set (inflight s). fst r < nextTimerId s) \<and>
     (isFetchingWeather s \<longrightarrow>
        (\<exists>t \<in> set (timers s). query t = locationText s) \<or>
        (\<exists>r \<in> set (inflight s). snd r = locationText s))"

text \<open>
  Concrete inputs at which the theorems are evaluated: a translation table, and the
  weather record of the spec's example.
\<close>

definition exampleTr :: translator where
  "exampleTr lang key =
     (case key of
        UnknownError \<Rightarrow> utf16 ''An unknown error occurred.''
      | PhotoError \<Rightarrow> utf16 ''Could not analyze the photo.''
      | AdviceError \<Rightarrow> utf16 ''Could not get crop advice.''
      | Details \<Rightarrow> utf16 ''Details'')"

definition loam :: WeatherData where
  "loam = \<lparr>soilType = utf16 ''loam'', current = \<lparr>temperature = 20, rainfall = 5\<rparr>,
           forecast = \<lparr>maxTemp = 28, minTemp = 15, rainfall = 2\<rparr>\<rparr>"

text \<open>
  A burst of query changes: before each change a run of other events takes place, then the
  location text changes and the effect runs.
\<close>

fun burst :: "translator \<Rightarrow> (event list \<times> jsstring) list \<Rightarrow> app \<Rightarrow> app" where
  "burst tr [] s = s"
| "burst tr ((es, v) # rest) s = burst tr rest (onQueryChange v (run tr es s))"

text \<open>
  A handle is retired when it has been handed out and no timer, no logged request and no
  awaited response carries it.
\<close>

definition retired :: "nat \<Rightarrow> app \<Rightarrow> bool" where
  "retired h s \<longleftrightarrow>
     h < nextTimerId s \<and> h \<notin> handle ` set (timers s) \<and>
     h \<notin> issuedBy ` set (lookups s) \<and> h \<notin> fst ` set (inflight s)"

text \<open>
  The events of the voice flow, and runs without them. The invariant of the two one-shot
  flows in such runs: at most one call awaits its result, and the loading flag is set
  while one does.
\<close>

fun isVoice :: "event \<Rightarrow> bool" where
  "isVoice ClickVoice = True"
| "isVoice VoiceConnected = True"
| "isVoice (VoiceFails msg) = True"
| "isVoice (VoiceFinalResponse r) = True"
| "isVoice _ = False"

definition noVoice :: "event list \<Rightarrow> bool" where
  "noVoice es \<longleftrightarrow> list_all (\<lambda>e. \<not> isVoice e) es"

definition oneshot_inv :: "app \<Rightarrow> bool" where
  "oneshot_inv s \<longleftrightarrow> length (pending s) \<le> 1 \<and> (pending s \<noteq> [] \<longrightarrow> isLoading s)"

section \<open>Runs and the invariant\<close>

lemma run_Nil [simp]: "run tr [] s = s"
  by (simp add: run_def)

lemma run_Cons [simp]: "run tr (e # es) s = run tr es (step tr e s)"
  by (simp add: run_def)

lemma run_append [simp]: "run tr (es @ es') s = run tr es' (run tr es s)"
  by (simp add: run_def)

lemma onQueryChange_eq:
  assumes "resolver_inv s"
  shows "onQueryChange v s =
     (if 3 < length (trim v)
      then s\<lparr>locationText := v, weatherData := None, isFetchingWeather := True,
             debounceTimeoutRef := Some (nextTimerId s), nextTimerId := Suc (nextTimerId s),
             timers := [\<lparr>handle = nextTimerId s, due = now s + 1500, query = v\<rparr>]\<rparr>
      else s\<lparr>locationText := v, weatherData := None, isFetchingWeather := False, timers := []\<rparr>)"
proof -
  have cleared: "\<And>h. debounceTimeoutRef s = Some h \<Longrightarrow> h \<noteq> 0 \<Longrightarrow> filter (\<lambda>t. handle t \<noteq> h) (timers s) = []"
    using assms by (auto simp: resolver_inv_def filter_empty_conv)
  have none: "debounceTimeoutRef s = None \<or> debounceTimeoutRef s = Some 0 \<Longrightarrow> timers s = []"
    using assms by (cases "timers s") (auto simp: resolver_inv_def)
  show ?thesis
    using cleared none
    by (cases "debounceTimeoutRef s")
       (auto simp: onQueryChange_def useEffect_locationText_def clearTimeout_def setTimeout_def Let_def)
qed


lemma mount: "useEffect_locationText init = init"
  by (simp add: useEffect_locationText_def init_def trim_def)

lemma resolver_inv_init: "resolver_inv init"
  by (simp add: resolver_inv_def init_def)

lemma other_step_frame:
  assumes "\<not> isChange e" "\<not> isLookupSettlement e" "\<not> isTick e"
  shows "timers (step tr e s) = timers s" "lookups (step tr e s) = lookups s"
    "inflight (step tr e s) = inflight s" "now (step tr e s) = now s"
    "nextTimerId (step tr e s) = nextTimerId s"
    "debounceTimeoutRef (step tr e s) = debounceTimeoutRef s"
    "locationText (step tr e s) = locationText s"
    "isFetchingWeather (step tr e s) = isFetchingWeather s"
    "weatherData (step tr e s) = weatherData s"
    "console (step tr e s) = console s"
  using assms
  by (cases e; simp add: clickAdvice_def clickAnalyze_def clickVoice_def handleGetCropAdvice_def
       handleImageAnalysis_def handleToggleVoice_def startCall_def startSession_def stopSession_def
       voiceConnected_def voiceFails_def handleFinalVoiceResponse_def finish_def callSettles_def
       Let_def split: option.splits call.splits settled.splits)+

lemma resolver_inv_other:
  assumes "resolver_inv s" "\<not> isChange e" "\<not> isLookupSettlement e" "\<not> isTick e"
  shows "resolver_inv (step tr e s)"
  using assms(1) unfolding resolver_inv_def other_step_frame[OF assms(2-4)] .

lemma tick_Nil: "timers s = [] \<Longrightarrow> tick d s = s\<lparr>now := now s + d\<rparr>"
  by (simp add: tick_def)

lemma tick_single:
  "timers s = [t] \<Longrightarrow>
   tick d s = (if due t \<le> now s + d
               then s\<lparr>now := now s + d, timers := [],
                      inflight := inflight s @ [(handle t, query t)],
                      lookups := lookups s @ [\<lparr>issuedBy = handle t, issuedAt = due t, arg = query t\<rparr>]\<rparr>
               else s\<lparr>now := now s + d\<rparr>)"
  by (simp add: tick_def fire_def)

lemma timers_cases:
  assumes "resolver_inv s"
  obtains "timers s = []" | t where "timers s = [t]"
  using assms by (cases "timers s") (auto simp: resolver_inv_def)

lemma resolver_inv_tick:
  assumes "resolver_inv s"
  shows "resolver_inv (tick d s)"
proof (rule timers_cases[OF assms])
  assume "timers s = []"
  then show ?thesis using assms by (simp add: tick_Nil resolver_inv_def)
next
  fix t assume "timers s = [t]"
  then show ?thesis using assms by (auto simp add: tick_single resolver_inv_def)
qed

lemma resolver_inv_change:
  assumes "resolver_inv s"
  shows "resolver_inv (onQueryChange v s)"
  using assms by (auto simp: onQueryChange_eq[OF assms] resolver_inv_def less_Suc_eq)

lemma resolver_inv_settles:
  assumes "resolver_inv s"
  shows "resolver_inv (lookupSettles h outcome s)"
  using assms
  by (auto simp: lookupSettles_def resolver_inv_def Let_def split: option.splits settled.splits)

lemma resolver_inv_step:
  assumes "resolver_inv s"
  shows "resolver_inv (step tr e s)"
proof (cases "isChange e \<or> isLookupSettlement e \<or> isTick e")
  case True
  then show ?thesis
    using assms
    by (cases e) (simp_all add: setLocationText_def resolver_inv_change resolver_inv_tick
        resolver_inv_settles)
next
  case False
  then show ?thesis using assms by (simp add: resolver_inv_other)
qed

lemma resolver_inv_run: "resolver_inv s \<Longrightarrow> resolver_inv (run tr es s)"
  by (induction es arbitrary: s) (simp_all add: resolver_inv_step)

lemma reachable_inv: "reachable tr s \<Longrightarrow> resolver_inv s"
  by (auto simp: reachable_def resolver_inv_run resolver_inv_init)


lemma settles_frame:
  "timers (lookupSettles h outcome s) = timers s" "lookups (lookupSettles h outcome s) = lookups s"
  "now (lookupSettles h outcome s) = now s" "nextTimerId (lookupSettles h outcome s) = nextTimerId s"
  "debounceTimeoutRef (lookupSettles h outcome s) = debounceTimeoutRef s"
  "locationText (lookupSettles h outcome s) = locationText s"
  by (simp_all add: lookupSettles_def Let_def split: option.splits settled.splits)

lemma quiet_step_frame:
  assumes "\<not> isChange e" "\<not> isTick e"
  shows "timers (step tr e s) = timers s" "lookups (step tr e s) = lookups s"
    "now (step tr e s) = now s" "nextTimerId (step tr e s) = nextTimerId s"
    "debounceTimeoutRef (step tr e s) = debounceTimeoutRef s"
    "locationText (step tr e s) = locationText s"
proof -
  have "timers (step tr e s) = timers s \<and> lookups (step tr e s) = lookups s \<and>
    now (step tr e s) = now s \<and> nextTimerId (step tr e s) = nextTimerId s \<and>
    debounceTimeoutRef (step tr e s) = debounceTimeoutRef s \<and>
    locationText (step tr e s) = locationText s"
  proof (cases "isLookupSettlement e")
    case True
    then show ?thesis by (cases e) (simp_all add: settles_frame)
  next
    case False
    then show ?thesis using assms by (simp add: other_step_frame)
  qed
  then show "timers (step tr e s) = timers s" "lookups (step tr e s) = lookups s"
    "now (step tr e s) = now s" "nextTimerId (step tr e s) = nextTimerId s"
    "debounceTimeoutRef (step tr e s) = debounceTimeoutRef s"
    "locationText (step tr e s) = locationText s"
    by simp_all
qed

lemma duration_not_tick: "\<not> isTick e \<Longrightarrow> duration e = 0"
  by (cases e) simp_all

lemma quiet_Cons [simp]: "quiet (e # es) \<longleftrightarrow> \<not> isChange e \<and> quiet es"
  by (simp add: quiet_def)

lemma quiet_Nil [simp]: "quiet []"
  by (simp add: quiet_def)

lemma calm_Cons [simp]: "calm (e # es) \<longleftrightarrow> \<not> isChange e \<and> \<not> isLookupSettlement e \<and> calm es"
  by (simp add: calm_def)

lemma calm_Nil [simp]: "calm []"
  by (simp add: calm_def)

lemma calm_quiet: "calm es \<Longrightarrow> quiet es"
  by (induction es) simp_all

lemma elapsed_Nil [simp]: "elapsed [] = 0"
  by (simp add: elapsed_def)

lemma elapsed_Cons [simp]: "elapsed (e # es) = duration e + elapsed es"
  by (simp add: elapsed_def)

lemma isTick_obtain:
  assumes "isTick e"
  obtains d where "e = Tick d"
  using assms by (cases e) simp_all

lemma quiet_no_timer:
  "timers s = [] \<Longrightarrow> quiet es \<Longrightarrow>
   timers (run tr es s) = [] \<and> lookups (run tr es s) = lookups s \<and>
   now (run tr es s) = now s + elapsed es"
proof (induction es arbitrary: s)
  case Nil
  then show ?case by simp
next
  case (Cons e es)
  have frame: "timers (step tr e s) = [] \<and> lookups (step tr e s) = lookups s \<and>
     now (step tr e s) = now s + duration e"
  proof (cases "isTick e")
    case True
    then obtain d where "e = Tick d" by (rule isTick_obtain)
    with Cons.prems show ?thesis by (simp add: tick_Nil)
  next
    case False
    with Cons.prems show ?thesis by (simp add: quiet_step_frame duration_not_tick)
  qed
  with Cons.IH[of "step tr e s"] Cons.prems show ?case by simp
qed

lemma quiet_one_timer:
  "timers s = [t] \<Longrightarrow> now s < due t \<Longrightarrow> quiet es \<Longrightarrow>
   timers (run tr es s) = (if due t \<le> now s + elapsed es then [] else [t]) \<and>
   lookups (run tr es s) =
     lookups s @ (if due t \<le> now s + elapsed es
                  then [\<lparr>issuedBy = handle t, issuedAt = due t, arg = query t\<rparr>] else []) \<and>
   now (run tr es s) = now s + elapsed es"
proof (induction es arbitrary: s)
  case Nil
  then show ?case by simp
next
  case (Cons e es)
  let ?s' = "step tr e s"
  show ?case
  proof (cases "isTick e \<and> due t \<le> now s + duration e")
    case True
    then obtain d where e: "e = Tick d" by (auto elim: isTick_obtain)
    with True Cons.prems have fired: "timers ?s' = []"
      "lookups ?s' = lookups s @ [\<lparr>issuedBy = handle t, issuedAt = due t, arg = query t\<rparr>]"
      "now ?s' = now s + d"
      by (simp_all add: tick_single)
    from quiet_no_timer[OF fired(1), of es tr] Cons.prems fired True e
    show ?thesis by simp
  next
    case False
    have kept: "timers ?s' = [t] \<and> lookups ?s' = lookups s \<and> now ?s' = now s + duration e"
    proof (cases "isTick e")
      case True
      then obtain d where "e = Tick d" by (rule isTick_obtain)
      with False Cons.prems show ?thesis by (simp add: tick_single)
    next
      case nt: False
      with Cons.prems show ?thesis by (simp add: quiet_step_frame duration_not_tick)
    qed
    moreover from kept False Cons.prems have "now ?s' < due t"
      by (cases "isTick e") (simp_all add: duration_not_tick)
    ultimately show ?thesis
      using Cons.IH[of ?s'] Cons.prems by (simp add: add.assoc)
  qed
qed


lemma reachable_run: "reachable tr (run tr es init)"
  by (auto simp: reachable_def)

lemma reachable_step: "reachable tr s \<Longrightarrow> reachable tr (step tr e s)"
proof -
  assume "reachable tr s"
  then obtain es where "s = run tr es init" by (auto simp: reachable_def)
  then have "step tr e s = run tr (es @ [e]) init" by simp
  then show ?thesis unfolding reachable_def by blast
qed

lemmas eval_defs = run_def setLocationText_def onQueryChange_def useEffect_locationText_def
  clearTimeout_def setTimeout_def tick_def fire_def lookupSettles_def init_def utf16_def
  trim_def isWhiteSpace_def Let_def

section \<open>Sub-threshold query changes\<close>

text \<open>
  C3. In every reachable state, a query change to a location text whose trimmed length is at
  most 3 leaves the weather record empty and the fetching flag false at once, issues no
  lookup request and leaves no timer pending, so that no request follows either, however
  much time passes, until the text changes again.
\<close>

theorem short_query_clears:
  assumes "reachable tr s" and "length (trim v) \<le> 3"
  shows "weatherData (onQueryChange v s) = None \<and>
         \<not> isFetchingWeather (onQueryChange v s) \<and>
         timers (onQueryChange v s) = [] \<and>
         lookups (onQueryChange v s) = lookups s \<and>
         (\<forall>es. quiet es \<longrightarrow> lookups (run tr es (onQueryChange v s)) = lookups s)"
proof -
  have inv: "resolver_inv s" using assms(1) by (rule reachable_inv)
  have eq: "onQueryChange v s =
      s\<lparr>locationText := v, weatherData := None, isFetchingWeather := False, timers := []\<rparr>"
    using assms(2) by (simp add: onQueryChange_eq[OF inv])
  have none: "timers (onQueryChange v s) = []" by (simp add: eq)
  have "lookups (run tr es (onQueryChange v s)) = lookups s" if "quiet es" for es
    using quiet_no_timer[OF none that, of tr] by (simp add: eq)
  then show ?thesis by (simp add: eq)
qed

theorem short_query_clears_witness:
  "length (trim (utf16 ''Pun '')) \<le> 3 \<and>
   weatherData (run exampleTr [SetLocationText (utf16 ''Pune''), Tick 1500,
                  LookupSettles 1 (Fulfilled loam)] init) = Some loam \<and>
   weatherData (onQueryChange (utf16 ''Pun '')
     (run exampleTr [SetLocationText (utf16 ''Pune''), Tick 1500,
                  LookupSettles 1 (Fulfilled loam)] init)) = None \<and>
   lookups (run exampleTr [Tick 5000] (onQueryChange (utf16 ''Pun '')
     (run exampleTr [SetLocationText (utf16 ''Pune''), Tick 1500,
                  LookupSettles 1 (Fulfilled loam)] init)))
    = [\<lparr>issuedBy = 1, issuedAt = 1500, arg = utf16 ''Pune''\<rparr>]"
proof -
  let ?s = "run exampleTr [SetLocationText (utf16 ''Pune''), Tick 1500,
                  LookupSettles 1 (Fulfilled loam)] init"
  have short: "length (trim (utf16 ''Pun '')) \<le> 3"
    by (simp add: utf16_def trim_def isWhiteSpace_def)
  have before: "weatherData ?s = Some loam"
    "lookups ?s = [\<lparr>issuedBy = 1, issuedAt = 1500, arg = utf16 ''Pune''\<rparr>]"
    by (simp_all add: eval_defs)
  have r: "reachable exampleTr ?s"
    by (rule reachable_run)
  note claim = short_query_clears[OF r short]
  from claim have cleared: "weatherData (onQueryChange (utf16 ''Pun '') ?s) = None"
    by blast
  from claim have "lookups (run exampleTr [Tick 5000] (onQueryChange (utf16 ''Pun '') ?s)) = lookups ?s"
    by (simp del: run_Cons)
  with short before cleared show ?thesis by (simp del: run_Cons)
qed

section \<open>Settled queries\<close>

text \<open>
  C4. In every reachable state, a query change to a location text of trimmed length above 3
  sets the fetching flag, clears the weather record and schedules one timer, due 1500 ms
  later. In any continuation without a further change, the log of lookup requests grows by
  exactly one request, for this text, issued 1500 ms after the change, once that much time
  has passed, and by none before.
\<close>

theorem long_query_schedules_one_lookup:
  assumes "reachable tr s" and "3 < length (trim v)"
  shows "isFetchingWeather (onQueryChange v s) \<and>
         weatherData (onQueryChange v s) = None \<and>
         timers (onQueryChange v s) = [\<lparr>handle = nextTimerId s, due = now s + 1500, query = v\<rparr>] \<and>
         (\<forall>es. quiet es \<longrightarrow>
            lookups (run tr es (onQueryChange v s)) =
              lookups s @ (if 1500 \<le> elapsed es
                           then [\<lparr>issuedBy = nextTimerId s, issuedAt = now s + 1500, arg = v\<rparr>]
                           else []))"
proof -
  let ?t = "\<lparr>handle = nextTimerId s, due = now s + 1500, query = v\<rparr>"
  have inv: "resolver_inv s" using assms(1) by (rule reachable_inv)
  have eq: "onQueryChange v s =
      s\<lparr>locationText := v, weatherData := None, isFetchingWeather := True,
        debounceTimeoutRef := Some (nextTimerId s), nextTimerId := Suc (nextTimerId s),
        timers := [?t]\<rparr>"
    using assms(2) by (simp add: onQueryChange_eq[OF inv])
  have one: "timers (onQueryChange v s) = [?t]" by (simp add: eq)
  have later: "now (onQueryChange v s) < due ?t" by (simp add: eq)
  have "lookups (run tr es (onQueryChange v s)) =
          lookups s @ (if 1500 \<le> elapsed es
                       then [\<lparr>issuedBy = nextTimerId s, issuedAt = now s + 1500, arg = v\<rparr>]
                       else [])" if "quiet es" for es
    using quiet_one_timer[OF one later that, of tr] by (simp add: eq)
  then show ?thesis by (simp add: eq)
qed

theorem long_query_schedules_one_lookup_witness:
  "3 < length (trim (utf16 ''Pune'')) \<and>
   quiet [Tick 1000, ClickVoice, Tick 500] \<and> quiet [Tick 1499] \<and>
   isFetchingWeather
     (onQueryChange (utf16 ''Pune'') (run exampleTr [SetLocationText (utf16 ''Pu''), Tick 100] init)) \<and>
   lookups (run exampleTr [Tick 1000, ClickVoice, Tick 500]
     (onQueryChange (utf16 ''Pune'') (run exampleTr [SetLocationText (utf16 ''Pu''), Tick 100] init)))
     = [\<lparr>issuedBy = 1, issuedAt = 1600, arg = utf16 ''Pune''\<rparr>] \<and>
   lookups (run exampleTr [Tick 1499]
     (onQueryChange (utf16 ''Pune'') (run exampleTr [SetLocationText (utf16 ''Pu''), Tick 100] init)))
     = []"
proof -
  let ?s = "run exampleTr [SetLocationText (utf16 ''Pu''), Tick 100] init"
  have long: "3 < length (trim (utf16 ''Pune''))"
    by (simp add: utf16_def trim_def isWhiteSpace_def)
  have r: "reachable exampleTr ?s" by (rule reachable_run)
  have q: "quiet [Tick 1000, ClickVoice, Tick 500]" "quiet [Tick 1499]" by simp_all
  have before: "lookups ?s = []" "nextTimerId ?s = 1" "now ?s = 100"
    by (simp_all add: eval_defs)
  note claim = long_query_schedules_one_lookup[OF r long]
  from claim have flag: "isFetchingWeather (onQueryChange (utf16 ''Pune'') ?s)"
    by blast
  from claim q(1) have l1: "lookups (run exampleTr [Tick 1000, ClickVoice, Tick 500]
       (onQueryChange (utf16 ''Pune'') ?s)) = [\<lparr>issuedBy = 1, issuedAt = 1600, arg = utf16 ''Pune''\<rparr>]"
    by (simp del: run_Cons add: before)
  from claim q(2) have l2: "lookups (run exampleTr [Tick 1499]
       (onQueryChange (utf16 ''Pune'') ?s)) = []"
    by (simp del: run_Cons add: before)
  from long q flag l1 l2 show ?thesis by (simp del: run_Cons)
qed

section \<open>One timer, one request per burst\<close>

lemma burst_state:
  assumes "resolver_inv s" and "\<forall>(es, w) \<in> set gs. quiet es \<and> elapsed es < 1500"
  shows "resolver_inv (burst tr gs (onQueryChange v s)) \<and>
         lookups (burst tr gs (onQueryChange v s)) = lookups s \<and>
         timers (burst tr gs (onQueryChange v s)) =
           (if 3 < length (trim (last (v # map snd gs)))
            then [\<lparr>handle = nextTimerId (burst tr gs (onQueryChange v s)) - 1,
                   due = now (burst tr gs (onQueryChange v s)) + 1500,
                   query = last (v # map snd gs)\<rparr>]
            else [])"
  using assms
proof (induction gs arbitrary: s v)
  case Nil
  then show ?case
    by (simp add: resolver_inv_change) (simp add: onQueryChange_eq)
next
  case (Cons g gs)
  obtain es w where g: "g = (es, w)" by (cases g)
  let ?s0 = "onQueryChange v s"
  let ?s1 = "run tr es ?s0"
  have q: "quiet es" "elapsed es < 1500" using Cons.prems(2) g by simp_all
  have inv0: "resolver_inv ?s0" using Cons.prems(1) by (rule resolver_inv_change)
  have inv1: "resolver_inv ?s1" using inv0 by (rule resolver_inv_run)
  have same: "lookups ?s1 = lookups s"
  proof (cases "3 < length (trim v)")
    case True
    let ?t = "\<lparr>handle = nextTimerId s, due = now s + 1500, query = v\<rparr>"
    from True have one: "timers ?s0 = [?t]" and l: "lookups ?s0 = lookups s"
      and n: "now ?s0 = now s"
      by (simp_all add: onQueryChange_eq[OF Cons.prems(1)])
    have later: "now ?s0 < due ?t" by (simp add: n)
    from quiet_one_timer[OF one later q(1), of tr] q(2) l n show ?thesis by simp
  next
    case False
    then have none: "timers ?s0 = []" and l: "lookups ?s0 = lookups s"
      by (simp_all add: onQueryChange_eq[OF Cons.prems(1)])
    from quiet_no_timer[OF none q(1), of tr] l show ?thesis by simp
  qed
  have rest: "\<forall>(es, w) \<in> set gs. quiet es \<and> elapsed es < 1500"
    using Cons.prems(2) by simp
  from Cons.IH[OF inv1 rest, of w] same g show ?case by simp
qed

text \<open>
  C2. In every reachable state at most one timer is pending, and a query change leaves none
  of the timers that were pending before it. For a burst of query changes, each less than
  1500 ms after the one before, and any continuation without a further change, at most one
  lookup request is issued: the one for the last text of the burst, 1500 ms after the last
  change, if that text is long enough and that much time passes. (The handle of the last
  timer scheduled is the next handle minus one.)
\<close>

theorem one_timer_one_lookup:
  assumes "reachable tr s"
  shows "length (timers s) \<le> 1 \<and>
         (\<forall>v. set (timers (onQueryChange v s)) \<inter> set (timers s) = {}) \<and>
         (\<forall>v gs es'.
            (\<forall>(es, w) \<in> set gs. quiet es \<and> elapsed es < 1500) \<and> quiet es' \<longrightarrow>
            lookups (run tr es' (burst tr gs (onQueryChange v s))) =
              lookups s @
              (if 1500 \<le> elapsed es' \<and> 3 < length (trim (last (v # map snd gs)))
               then [\<lparr>issuedBy = nextTimerId (burst tr gs (onQueryChange v s)) - 1,
                      issuedAt = now (burst tr gs (onQueryChange v s)) + 1500,
                      arg = last (v # map snd gs)\<rparr>]
               else []))"
proof -
  have inv: "resolver_inv s" using assms by (rule reachable_inv)
  have a: "length (timers s) \<le> 1" using inv by (simp add: resolver_inv_def)
  have b: "set (timers (onQueryChange v s)) \<inter> set (timers s) = {}" for v
    using inv by (auto simp: onQueryChange_eq[OF inv] resolver_inv_def)
  have c: "lookups (run tr es' (burst tr gs (onQueryChange v s))) =
              lookups s @
              (if 1500 \<le> elapsed es' \<and> 3 < length (trim (last (v # map snd gs)))
               then [\<lparr>issuedBy = nextTimerId (burst tr gs (onQueryChange v s)) - 1,
                      issuedAt = now (burst tr gs (onQueryChange v s)) + 1500,
                      arg = last (v # map snd gs)\<rparr>]
               else [])"
    if h: "\<forall>(es, w) \<in> set gs. quiet es \<and> elapsed es < 1500" and q: "quiet es'"
    for v gs es'
  proof -
    let ?sb = "burst tr gs (onQueryChange v s)"
    note st = burst_state[OF inv h, of tr v]
    show ?thesis
    proof (cases "3 < length (trim (last (v # map snd gs)))")
      case True
      let ?t = "\<lparr>handle = nextTimerId ?sb - 1, due = now ?sb + 1500, query = last (v # map snd gs)\<rparr>"
      from st True have one: "timers ?sb = [?t]" by simp
      have later: "now ?sb < due ?t" by simp
      from quiet_one_timer[OF one later q, of tr] st True show ?thesis by simp
    next
      case False
      with st have none: "timers ?sb = []" by simp
      from quiet_no_timer[OF none q, of tr] st False show ?thesis by simp
    qed
  qed
  from a b c show ?thesis by blast
qed


theorem one_timer_one_lookup_witness:
  "quiet [Tick 200] \<and> elapsed [Tick 200] < 1500 \<and>
   quiet [Tick 300, ClickVoice] \<and> elapsed [Tick 300, ClickVoice] < 1500 \<and>
   quiet [Tick 1499] \<and> elapsed [Tick 1499] < 1500 \<and>
   quiet [Tick 1500] \<and>
   length (timers (run exampleTr [SetLocationText (utf16 ''Pu''), Tick 100] init)) \<le> 1 \<and>
   lookups (run exampleTr [Tick 1500]
     (burst exampleTr [([Tick 200], utf16 ''Pune ''), ([Tick 300, ClickVoice], utf16 ''Pune C''),
                       ([Tick 1499], utf16 ''Pune City'')]
        (onQueryChange (utf16 ''Pune'') (run exampleTr [SetLocationText (utf16 ''Pu''), Tick 100] init))))
     = [\<lparr>issuedBy = 4, issuedAt = 3599, arg = utf16 ''Pune City''\<rparr>]"
proof -
  let ?s = "run exampleTr [SetLocationText (utf16 ''Pu''), Tick 100] init"
  let ?gs = "[([Tick 200], utf16 ''Pune ''), ([Tick 300, ClickVoice], utf16 ''Pune C''),
              ([Tick 1499], utf16 ''Pune City'')]"
  let ?sb = "burst exampleTr ?gs (onQueryChange (utf16 ''Pune'') ?s)"
  have r: "reachable exampleTr ?s" by (rule reachable_run)
  have h: "(\<forall>(es, w) \<in> set ?gs. quiet es \<and> elapsed es < 1500) \<and> quiet [Tick 1500]"
    by simp
  have before: "lookups ?s = []" by (simp add: eval_defs)
  have after: "nextTimerId ?sb = 5" "now ?sb = 2099"
    by (simp_all add: eval_defs clickVoice_def voiceButtonEnabled_def handleToggleVoice_def
          startSession_def)
  have long: "3 < length (trim (utf16 ''Pune City''))"
    by (simp add: utf16_def trim_def isWhiteSpace_def)
  note claim = one_timer_one_lookup[OF r]
  from claim have one: "length (timers ?s) \<le> 1" by blast
  from claim h
  have "lookups (run exampleTr [Tick 1500] ?sb) =
          lookups ?s @
          (if 1500 \<le> elapsed [Tick 1500] \<and> 3 < length (trim (last (utf16 ''Pune'' # map snd ?gs)))
           then [\<lparr>issuedBy = nextTimerId ?sb - 1, issuedAt = now ?sb + 1500,
                  arg = last (utf16 ''Pune'' # map snd ?gs)\<rparr>]
           else [])"
    by blast
  then have "lookups (run exampleTr [Tick 1500] ?sb)
     = [\<lparr>issuedBy = 4, issuedAt = 3599, arg = utf16 ''Pune City''\<rparr>]"
    using long by (simp del: run_Cons burst.simps add: before after)
  with h one show ?thesis by (simp del: run_Cons burst.simps)
qed

section \<open>Superseded queries\<close>

lemma fold_fire:
  "fold fire ts s =
     s\<lparr>inflight := inflight s @ map (\<lambda>t. (handle t, query t)) ts,
       lookups := lookups s @ map (\<lambda>t. \<lparr>issuedBy = handle t, issuedAt = due t, arg = query t\<rparr>) ts\<rparr>"
  by (induction ts arbitrary: s) (simp_all add: fire_def)

lemma retired_change: "retired h s \<Longrightarrow> retired h (onQueryChange v s)"
  by (auto simp: retired_def onQueryChange_def useEffect_locationText_def clearTimeout_def
      setTimeout_def Let_def split: option.splits)

lemma retired_tick: "retired h s \<Longrightarrow> retired h (tick d s)"
  by (auto simp: retired_def tick_def fold_fire Let_def)

lemma retired_settles: "retired h s \<Longrightarrow> retired h (lookupSettles k outcome s)"
  by (auto simp: retired_def lookupSettles_def Let_def split: option.splits settled.splits)

lemma retired_step: "retired h s \<Longrightarrow> retired h (step tr e s)"
proof (cases "isChange e \<or> isLookupSettlement e \<or> isTick e")
  case True
  assume "retired h s"
  with True show ?thesis
    by (cases e) (simp_all add: setLocationText_def retired_change retired_tick retired_settles)
next
  case False
  assume "retired h s"
  with False show ?thesis by (simp add: retired_def other_step_frame)
qed

lemma retired_run: "retired h s \<Longrightarrow> retired h (run tr es s)"
  by (induction es arbitrary: s) (simp_all add: retired_step)

lemma retired_no_response:
  "retired h s \<Longrightarrow> lookupSettles h outcome s = s"
proof -
  assume "retired h s"
  then have "map_of (inflight s) h = None"
    by (simp add: retired_def map_of_eq_None_iff)
  then show ?thesis by (simp add: lookupSettles_def)
qed

text \<open>
  C1, as the code has it. In every reachable state, a query change retires the timer that
  was pending: in every continuation that timer is gone, its handle never appears in the log
  of lookup requests nor among the requests awaiting a response, and a settlement for it
  changes nothing. So no request is issued for a value that was superseded before its timer
  elapsed.
\<close>

theorem superseded_timer_never_issues:
  assumes "reachable tr s" and "t \<in> set (timers s)"
  shows "\<forall>es. handle t \<notin> handle ` set (timers (run tr es (onQueryChange v s))) \<and>
              handle t \<notin> issuedBy ` set (lookups (run tr es (onQueryChange v s))) \<and>
              handle t \<notin> fst ` set (inflight (run tr es (onQueryChange v s))) \<and>
              (\<forall>outcome. lookupSettles (handle t) outcome (run tr es (onQueryChange v s)) =
                 run tr es (onQueryChange v s))"
proof -
  have inv: "resolver_inv s" using assms(1) by (rule reachable_inv)
  have "retired (handle t) (onQueryChange v s)"
    using inv assms(2) by (auto simp: onQueryChange_eq[OF inv] retired_def resolver_inv_def)
  then have "retired (handle t) (run tr es (onQueryChange v s))" for es
    by (rule retired_run)
  then show ?thesis
    by (simp add: retired_no_response) (simp add: retired_def)
qed

theorem superseded_timer_never_issues_witness:
  "\<lparr>handle = 1, due = 1500, query = utf16 ''Pune''\<rparr>
     \<in> set (timers (run exampleTr [SetLocationText (utf16 ''Pune''), Tick 1499] init)) \<and>
   (1::nat) \<notin> issuedBy ` set (lookups (run exampleTr [Tick 5000]
       (onQueryChange (utf16 ''Mumbai'')
          (run exampleTr [SetLocationText (utf16 ''Pune''), Tick 1499] init)))) \<and>
   lookups (run exampleTr [Tick 5000]
       (onQueryChange (utf16 ''Mumbai'')
          (run exampleTr [SetLocationText (utf16 ''Pune''), Tick 1499] init)))
     = [\<lparr>issuedBy = 2, issuedAt = 2999, arg = utf16 ''Mumbai''\<rparr>]"
proof -
  let ?s = "run exampleTr [SetLocationText (utf16 ''Pune''), Tick 1499] init"
  let ?t = "\<lparr>handle = 1, due = 1500, query = utf16 ''Pune''\<rparr>"
  have r: "reachable exampleTr ?s" by (rule reachable_run)
  have p: "?t \<in> set (timers ?s)" by (simp add: eval_defs)
  have l: "lookups (run exampleTr [Tick 5000] (onQueryChange (utf16 ''Mumbai'') ?s))
     = [\<lparr>issuedBy = 2, issuedAt = 2999, arg = utf16 ''Mumbai''\<rparr>]"
    by (simp add: eval_defs)
  from superseded_timer_never_issues[OF r p, of "utf16 ''Mumbai''"]
  have "handle ?t \<notin> issuedBy ` set (lookups (run exampleTr [Tick 5000]
       (onQueryChange (utf16 ''Mumbai'') ?s)))"
    by blast
  then have "(1::nat) \<notin> issuedBy ` set (lookups (run exampleTr [Tick 5000]
       (onQueryChange (utf16 ''Mumbai'') ?s)))"
    by (simp del: run_Cons)
  with p l show ?thesis by (simp del: run_Cons)
qed

text \<open>
  C1, as stated, fails when the query changes after the timer has elapsed: the request is
  not cancelled and its response is published. Here the text becomes Mumbai while the
  request for Pune awaits its response; the change clears the record, and then the response
  for Pune sets it.
\<close>

theorem stale_response_is_published:
  "locationText (run exampleTr [SetLocationText (utf16 ''Pune''), Tick 1500,
      SetLocationText (utf16 ''Mumbai''), LookupSettles 1 (Fulfilled loam)] init) = utf16 ''Mumbai'' \<and>
   lookups (run exampleTr [SetLocationText (utf16 ''Pune''), Tick 1500,
      SetLocationText (utf16 ''Mumbai''), LookupSettles 1 (Fulfilled loam)] init)
     = [\<lparr>issuedBy = 1, issuedAt = 1500, arg = utf16 ''Pune''\<rparr>] \<and>
   weatherData (run exampleTr [SetLocationText (utf16 ''Pune''), Tick 1500,
      SetLocationText (utf16 ''Mumbai'')] init) = None \<and>
   weatherData (run exampleTr [SetLocationText (utf16 ''Pune''), Tick 1500,
      SetLocationText (utf16 ''Mumbai''), LookupSettles 1 (Fulfilled loam)] init) = Some loam"
  by (simp add: eval_defs)

section \<open>The fetching flag\<close>

text \<open>
  C5, as the code has it. In every reachable state in which the fetching flag is set, a
  lookup for the current location text is either scheduled (its timer is pending) or
  issued and awaiting its response.
\<close>

theorem fetching_flag_meaning:
  assumes "reachable tr s" and "isFetchingWeather s"
  shows "(\<exists>t \<in> set (timers s). query t = locationText s) \<or>
         (\<exists>r \<in> set (inflight s). snd r = locationText s)"
  using reachable_inv[OF assms(1)] assms(2) unfolding resolver_inv_def by blast


theorem fetching_flag_meaning_witness:
  "isFetchingWeather (run exampleTr [SetLocationText (utf16 ''Pune''), Tick 1500] init) \<and>
   timers (run exampleTr [SetLocationText (utf16 ''Pune''), Tick 1500] init) = [] \<and>
   (\<exists>r \<in> set (inflight (run exampleTr [SetLocationText (utf16 ''Pune''), Tick 1500] init)).
      snd r = locationText (run exampleTr [SetLocationText (utf16 ''Pune''), Tick 1500] init))"
proof -
  let ?s = "run exampleTr [SetLocationText (utf16 ''Pune''), Tick 1500] init"
  have r: "reachable exampleTr ?s" by (rule reachable_run)
  have f: "isFetchingWeather ?s" by (simp add: eval_defs)
  have n: "timers ?s = []" by (simp add: eval_defs)
  from fetching_flag_meaning[OF r f] n
  have "\<exists>r \<in> set (inflight ?s). snd r = locationText ?s" by (simp del: run_Cons)
  with f n show ?thesis by (simp del: run_Cons)
qed

text \<open>
  C5, as stated, fails in both directions. After a change to a long text the flag is set
  while the timer is pending and no request has been issued at all. And the response of an
  earlier request clears the flag while the request for the current text still awaits its
  response.
\<close>

theorem fetching_flag_not_in_flight:
  "isFetchingWeather (run exampleTr [SetLocationText (utf16 ''Pune'')] init) \<and>
   lookups (run exampleTr [SetLocationText (utf16 ''Pune'')] init) = [] \<and>
   inflight (run exampleTr [SetLocationText (utf16 ''Pune'')] init) = [] \<and>
   \<not> isFetchingWeather (run exampleTr [SetLocationText (utf16 ''Pune''), Tick 1500,
        SetLocationText (utf16 ''Mumbai''), Tick 1500, LookupSettles 1 (Fulfilled loam)] init) \<and>
   locationText (run exampleTr [SetLocationText (utf16 ''Pune''), Tick 1500,
        SetLocationText (utf16 ''Mumbai''), Tick 1500, LookupSettles 1 (Fulfilled loam)] init)
     = utf16 ''Mumbai'' \<and>
   inflight (run exampleTr [SetLocationText (utf16 ''Pune''), Tick 1500,
        SetLocationText (utf16 ''Mumbai''), Tick 1500, LookupSettles 1 (Fulfilled loam)] init)
     = [(2, utf16 ''Mumbai'')]"
  by (simp add: eval_defs)

section \<open>Lookup settlements\<close>

lemma calm_no_timer:
  "timers s = [] \<Longrightarrow> calm es \<Longrightarrow>
   inflight (run tr es s) = inflight s \<and>
   isFetchingWeather (run tr es s) = isFetchingWeather s \<and>
   weatherData (run tr es s) = weatherData s"
proof (induction es arbitrary: s)
  case Nil
  then show ?case by simp
next
  case (Cons e es)
  have frame: "timers (step tr e s) = [] \<and> inflight (step tr e s) = inflight s \<and>
     isFetchingWeather (step tr e s) = isFetchingWeather s \<and>
     weatherData (step tr e s) = weatherData s"
  proof (cases "isTick e")
    case True
    then obtain d where "e = Tick d" by (rule isTick_obtain)
    with Cons.prems show ?thesis by (simp add: tick_Nil)
  next
    case False
    with Cons.prems show ?thesis by (simp add: other_step_frame)
  qed
  with Cons.IH[of "step tr e s"] Cons.prems show ?case by simp
qed

lemma calm_one_timer:
  "timers s = [t] \<Longrightarrow> now s < due t \<Longrightarrow> calm es \<Longrightarrow>
   inflight (run tr es s) =
     inflight s @ (if due t \<le> now s + elapsed es then [(handle t, query t)] else []) \<and>
   isFetchingWeather (run tr es s) = isFetchingWeather s \<and>
   weatherData (run tr es s) = weatherData s"
proof (induction es arbitrary: s)
  case Nil
  then show ?case by simp
next
  case (Cons e es)
  let ?s' = "step tr e s"
  show ?case
  proof (cases "isTick e \<and> due t \<le> now s + duration e")
    case True
    then obtain d where e: "e = Tick d" by (auto elim: isTick_obtain)
    with True Cons.prems have fired: "timers ?s' = []"
      "inflight ?s' = inflight s @ [(handle t, query t)]"
      "isFetchingWeather ?s' = isFetchingWeather s" "weatherData ?s' = weatherData s"
      by (simp_all add: tick_single)
    from calm_no_timer[OF fired(1), of es tr] Cons.prems fired True e
    show ?thesis by simp
  next
    case False
    have kept: "timers ?s' = [t] \<and> inflight ?s' = inflight s \<and>
       isFetchingWeather ?s' = isFetchingWeather s \<and> weatherData ?s' = weatherData s \<and>
       now ?s' = now s + duration e"
    proof (cases "isTick e")
      case True
      then obtain d where "e = Tick d" by (rule isTick_obtain)
      with False Cons.prems show ?thesis by (simp add: tick_single)
    next
      case nt: False
      with Cons.prems show ?thesis by (simp add: other_step_frame duration_not_tick)
    qed
    moreover from kept False Cons.prems have "now ?s' < due t"
      by (cases "isTick e") (simp_all add: duration_not_tick)
    ultimately show ?thesis
      using Cons.IH[of ?s'] Cons.prems by (simp add: add.assoc)
  qed
qed

lemma awaited_iff: "h \<in> fst ` set xs \<longleftrightarrow> map_of xs h \<noteq> None"
  by (simp add: map_of_eq_None_iff)

lemma uncontended_lookup:
  assumes "reachable tr s" and "3 < length (trim v)" and "calm es" and "1500 \<le> elapsed es"
  shows "isFetchingWeather (run tr es (onQueryChange v s)) \<and>
         weatherData (run tr es (onQueryChange v s)) = None \<and>
         map_of (inflight (run tr es (onQueryChange v s))) (nextTimerId s) = Some v"
proof -
  let ?t = "\<lparr>handle = nextTimerId s, due = now s + 1500, query = v\<rparr>"
  have inv: "resolver_inv s" using assms(1) by (rule reachable_inv)
  have eq: "onQueryChange v s =
      s\<lparr>locationText := v, weatherData := None, isFetchingWeather := True,
        debounceTimeoutRef := Some (nextTimerId s), nextTimerId := Suc (nextTimerId s),
        timers := [?t]\<rparr>"
    using assms(2) by (simp add: onQueryChange_eq[OF inv])
  have one: "timers (onQueryChange v s) = [?t]" by (simp add: eq)
  have later: "now (onQueryChange v s) < due ?t" by (simp add: eq)
  have fresh: "map_of (inflight s) (nextTimerId s) = None"
    using inv by (auto simp: resolver_inv_def map_of_eq_None_iff)
  from calm_one_timer[OF one later assms(3), of tr] assms(4) fresh
  show ?thesis by (simp add: eq map_add_def[symmetric] map_add_Some_iff)
qed

lemma reachable_init: "reachable tr init"
  using reachable_run[of tr "[]"] by simp

text \<open>
  C6, as the code has it. Whenever the lookup request of timer \<open>h\<close> is fulfilled with a
  payload, the weather record afterwards is exactly that payload and the fetching flag is
  false. And when, after a query change to a long text in a reachable state, 1500 ms or more
  pass with no further change and no lookup settlement, the request of the new timer awaits
  its response with the fetching flag still true and the record empty: for such a lookup
  the flag goes from true to false.
\<close>

theorem successful_lookup_publishes:
  "(h \<in> fst ` set (inflight s) \<longrightarrow>
      weatherData (lookupSettles h (Fulfilled w) s) = Some w \<and>
      \<not> isFetchingWeather (lookupSettles h (Fulfilled w) s)) \<and>
   (reachable tr s' \<and> 3 < length (trim v) \<and> calm es \<and> 1500 \<le> elapsed es \<longrightarrow>
      isFetchingWeather (run tr es (onQueryChange v s')) \<and>
      weatherData (run tr es (onQueryChange v s')) = None \<and>
      nextTimerId s' \<in> fst ` set (inflight (run tr es (onQueryChange v s'))))"
proof -
  have "weatherData (lookupSettles h (Fulfilled w) s) = Some w \<and>
        \<not> isFetchingWeather (lookupSettles h (Fulfilled w) s)"
    if "h \<in> fst ` set (inflight s)"
  proof -
    from that obtain q where "map_of (inflight s) h = Some q"
      by (cases "map_of (inflight s) h") (auto simp: map_of_eq_None_iff)
    then show ?thesis by (simp add: lookupSettles_def)
  qed
  moreover have "nextTimerId s' \<in> fst ` set (inflight (run tr es (onQueryChange v s')))"
    if "map_of (inflight (run tr es (onQueryChange v s'))) (nextTimerId s') = Some v"
    using that by (metis map_of_eq_None_iff option.distinct(1))
  ultimately show ?thesis using uncontended_lookup[of tr s' v es] by blast
qed

theorem successful_lookup_publishes_witness:
  "3 < length (trim (utf16 ''Pune'')) \<and> calm [Tick 1000, ClickVoice, Tick 500] \<and>
   1500 \<le> elapsed [Tick 1000, ClickVoice, Tick 500] \<and>
   isFetchingWeather (run exampleTr [Tick 1000, ClickVoice, Tick 500] (onQueryChange (utf16 ''Pune'') init)) \<and>
   weatherData (lookupSettles 1 (Fulfilled loam)
     (run exampleTr [Tick 1000, ClickVoice, Tick 500] (onQueryChange (utf16 ''Pune'') init))) = Some loam \<and>
   \<not> isFetchingWeather (lookupSettles 1 (Fulfilled loam)
     (run exampleTr [Tick 1000, ClickVoice, Tick 500] (onQueryChange (utf16 ''Pune'') init)))"
proof -
  let ?es = "[Tick 1000, ClickVoice, Tick 500]"
  let ?s = "run exampleTr ?es (onQueryChange (utf16 ''Pune'') init)"
  have hyp: "reachable exampleTr init \<and> 3 < length (trim (utf16 ''Pune'')) \<and> calm ?es \<and>
    1500 \<le> elapsed ?es"
    by (simp add: reachable_init) (simp add: utf16_def trim_def isWhiteSpace_def)
  have first: "nextTimerId init = 1" by (simp add: init_def)
  note claim = successful_lookup_publishes[where h = 1 and s = "?s" and w = loam
      and tr = exampleTr and s' = init and v = "utf16 ''Pune''" and es = "?es"]
  from claim hyp have before: "isFetchingWeather ?s \<and> 1 \<in> fst ` set (inflight ?s)"
    by (simp del: run_Cons add: first)
  with claim have "weatherData (lookupSettles 1 (Fulfilled loam) ?s) = Some loam \<and>
      \<not> isFetchingWeather (lookupSettles 1 (Fulfilled loam) ?s)"
    by blast
  with hyp before show ?thesis by (simp del: run_Cons)
qed

text \<open>
  C6, as stated, fails on the transition: the flag may already be false when a successful
  lookup completes. Here the text is shortened below the threshold while the request for
  Pune awaits its response; the flag is false before the response and after it (and the
  payload is published all the same).
\<close>

theorem lookup_success_without_transition:
  "\<not> isFetchingWeather (run exampleTr [SetLocationText (utf16 ''Pune''), Tick 1500,
       SetLocationText (utf16 ''Pun'')] init) \<and>
   inflight (run exampleTr [SetLocationText (utf16 ''Pune''), Tick 1500,
       SetLocationText (utf16 ''Pun'')] init) = [(1, utf16 ''Pune'')] \<and>
   weatherData (run exampleTr [SetLocationText (utf16 ''Pune''), Tick 1500,
       SetLocationText (utf16 ''Pun''), LookupSettles 1 (Fulfilled loam)] init) = Some loam \<and>
   \<not> isFetchingWeather (run exampleTr [SetLocationText (utf16 ''Pune''), Tick 1500,
       SetLocationText (utf16 ''Pun''), LookupSettles 1 (Fulfilled loam)] init)"
  by (simp add: eval_defs)

text \<open>
  C7, as the code has it. Whenever the lookup request of timer \<open>h\<close> is rejected, the only
  changes are that the request no longer awaits a response, that the thrown value is
  appended to the console log, and that the fetching flag is false: the weather record,
  the result slot and everything else stay as they were, and the step is total (nothing is
  thrown further). And when, after a query change to a long text in a reachable state,
  1500 ms or more pass with no further change and no lookup settlement, the flag is true
  and the record empty before the rejection, and the flag is false and the record still
  empty after it.
\<close>

theorem failing_lookup_is_swallowed:
  "(h \<in> fst ` set (inflight s) \<longrightarrow>
      lookupSettles h (Rejected e) s =
        s\<lparr>inflight := filter (\<lambda>r. fst r \<noteq> h) (inflight s), console := console s @ [e],
          isFetchingWeather := False\<rparr>) \<and>
   (reachable tr s' \<and> 3 < length (trim v) \<and> calm es \<and> 1500 \<le> elapsed es \<longrightarrow>
      isFetchingWeather (run tr es (onQueryChange v s')) \<and>
      weatherData (run tr es (onQueryChange v s')) = None \<and>
      nextTimerId s' \<in> fst ` set (inflight (run tr es (onQueryChange v s'))) \<and>
      weatherData (lookupSettles (nextTimerId s') (Rejected e) (run tr es (onQueryChange v s'))) = None \<and>
      \<not> isFetchingWeather (lookupSettles (nextTimerId s') (Rejected e) (run tr es (onQueryChange v s'))))"
proof -
  have a: "lookupSettles h (Rejected e) s =
        s\<lparr>inflight := filter (\<lambda>r. fst r \<noteq> h) (inflight s), console := console s @ [e],
          isFetchingWeather := False\<rparr>"
    if "h \<in> fst ` set (inflight s)"
  proof -
    from that obtain q where "map_of (inflight s) h = Some q"
      by (cases "map_of (inflight s) h") (auto simp: map_of_eq_None_iff)
    then show ?thesis by (simp add: lookupSettles_def)
  qed
  have b: "isFetchingWeather (run tr es (onQueryChange v s')) \<and>
      weatherData (run tr es (onQueryChange v s')) = None \<and>
      nextTimerId s' \<in> fst ` set (inflight (run tr es (onQueryChange v s'))) \<and>
      weatherData (lookupSettles (nextTimerId s') (Rejected e) (run tr es (onQueryChange v s'))) = None \<and>
      \<not> isFetchingWeather (lookupSettles (nextTimerId s') (Rejected e) (run tr es (onQueryChange v s')))"
    if "reachable tr s'" "3 < length (trim v)" "calm es" "1500 \<le> elapsed es"
  proof -
    note u = uncontended_lookup[OF that]
    then show ?thesis
      by (simp add: lookupSettles_def awaited_iff)
  qed
  from a b show ?thesis by blast
qed


theorem failing_lookup_is_swallowed_witness:
  "3 < length (trim (utf16 ''Pune'')) \<and> calm [Tick 1000, ClickVoice, Tick 500] \<and>
   1500 \<le> elapsed [Tick 1000, ClickVoice, Tick 500] \<and>
   isFetchingWeather (run exampleTr [Tick 1000, ClickVoice, Tick 500] (onQueryChange (utf16 ''Pune'') init)) \<and>
   weatherData (lookupSettles 1 (Rejected (ErrorInstance (utf16 ''Failed to fetch'')))
     (run exampleTr [Tick 1000, ClickVoice, Tick 500] (onQueryChange (utf16 ''Pune'') init))) = None \<and>
   \<not> isFetchingWeather (lookupSettles 1 (Rejected (ErrorInstance (utf16 ''Failed to fetch'')))
     (run exampleTr [Tick 1000, ClickVoice, Tick 500] (onQueryChange (utf16 ''Pune'') init))) \<and>
   console (lookupSettles 1 (Rejected (ErrorInstance (utf16 ''Failed to fetch'')))
     (run exampleTr [Tick 1000, ClickVoice, Tick 500] (onQueryChange (utf16 ''Pune'') init)))
     = [ErrorInstance (utf16 ''Failed to fetch'')] \<and>
   result (lookupSettles 1 (Rejected (ErrorInstance (utf16 ''Failed to fetch'')))
     (run exampleTr [Tick 1000, ClickVoice, Tick 500] (onQueryChange (utf16 ''Pune'') init))) = None"
proof -
  let ?es = "[Tick 1000, ClickVoice, Tick 500]"
  let ?s = "run exampleTr ?es (onQueryChange (utf16 ''Pune'') init)"
  let ?e = "ErrorInstance (utf16 ''Failed to fetch'')"
  have hyp: "reachable exampleTr init \<and> 3 < length (trim (utf16 ''Pune'')) \<and> calm ?es \<and>
    1500 \<le> elapsed ?es"
    by (simp add: reachable_init) (simp add: utf16_def trim_def isWhiteSpace_def)
  have first: "nextTimerId init = 1" by (simp add: init_def)
  have quietly: "console ?s = []" "result ?s = None"
    by (simp_all add: eval_defs clickVoice_def voiceButtonEnabled_def handleToggleVoice_def
          startSession_def)
  note claim = failing_lookup_is_swallowed[where h = 1 and s = "?s" and e = "?e"
      and tr = exampleTr and s' = init and v = "utf16 ''Pune''" and es = "?es"]
  from claim hyp have scenario: "isFetchingWeather ?s \<and> 1 \<in> fst ` set (inflight ?s) \<and>
      weatherData (lookupSettles 1 (Rejected ?e) ?s) = None \<and>
      \<not> isFetchingWeather (lookupSettles 1 (Rejected ?e) ?s)"
    by (simp del: run_Cons add: first)
  with claim have "lookupSettles 1 (Rejected ?e) ?s =
        ?s\<lparr>inflight := filter (\<lambda>r. fst r \<noteq> 1) (inflight ?s), console := console ?s @ [?e],
          isFetchingWeather := False\<rparr>"
    by blast
  then have "console (lookupSettles 1 (Rejected ?e) ?s) = [?e] \<and>
     result (lookupSettles 1 (Rejected ?e) ?s) = None"
    by (simp del: run_Cons add: quietly)
  with hyp scenario show ?thesis by (simp del: run_Cons)
qed

text \<open>
  C7, as stated, fails on the record and on the transition when an earlier request has
  settled in between: here the response for Pune is published and clears the flag while
  the request for Mumbai awaits its response; when that request fails, the record is not
  empty and the flag was already false.
\<close>

theorem failing_lookup_record_not_empty:
  "weatherData (run exampleTr [SetLocationText (utf16 ''Pune''), Tick 1500,
       SetLocationText (utf16 ''Mumbai''), Tick 1500, LookupSettles 1 (Fulfilled loam)] init)
     = Some loam \<and>
   \<not> isFetchingWeather (run exampleTr [SetLocationText (utf16 ''Pune''), Tick 1500,
       SetLocationText (utf16 ''Mumbai''), Tick 1500, LookupSettles 1 (Fulfilled loam)] init) \<and>
   inflight (run exampleTr [SetLocationText (utf16 ''Pune''), Tick 1500,
       SetLocationText (utf16 ''Mumbai''), Tick 1500, LookupSettles 1 (Fulfilled loam)] init)
     = [(2, utf16 ''Mumbai'')] \<and>
   weatherData (run exampleTr [SetLocationText (utf16 ''Pune''), Tick 1500,
       SetLocationText (utf16 ''Mumbai''), Tick 1500, LookupSettles 1 (Fulfilled loam),
       LookupSettles 2 (Rejected (ErrorInstance (utf16 ''Failed to fetch'')))] init)
     = Some loam \<and>
   \<not> isFetchingWeather (run exampleTr [SetLocationText (utf16 ''Pune''), Tick 1500,
       SetLocationText (utf16 ''Mumbai''), Tick 1500, LookupSettles 1 (Fulfilled loam),
       LookupSettles 2 (Rejected (ErrorInstance (utf16 ''Failed to fetch'')))] init)"
  by (simp add: eval_defs)

section \<open>The one-shot flows: failures, re-entry, unmet preconditions\<close>

lemmas eval_oneshot_defs = clickAdvice_def clickAnalyze_def clickVoice_def adviceButtonEnabled_def
  analyzeButtonEnabled_def voiceButtonEnabled_def handleGetCropAdvice_def handleImageAnalysis_def
  handleToggleVoice_def handleFinalVoiceResponse_def startCall_def startSession_def
  stopSession_def voiceConnected_def voiceFails_def callSettles_def finish_def failureText_def
  errorMessage_def exampleTr_def

lemma single_entry: "length xs \<le> 1 \<Longrightarrow> map_of xs c = Some k \<Longrightarrow> xs = [(c, k)]"
  by (cases xs) (auto split: if_splits)

lemma oneshot_inv_settles:
  assumes "oneshot_inv s"
  shows "oneshot_inv (callSettles tr c outcome s)"
proof (cases "map_of (pending s) c")
  case None
  with assms show ?thesis by (simp add: callSettles_def)
next
  case (Some k)
  with assms have p: "pending s = [(c, k)]" by (simp add: oneshot_inv_def single_entry)
  with assms have l: "isLoading s" by (simp add: oneshot_inv_def)
  show ?thesis
  proof (cases outcome)
    case (Fulfilled x)
    with p l show ?thesis
      by (cases k) (simp_all add: callSettles_def oneshot_inv_def finish_def Let_def)
  next
    case (Rejected x)
    with p l show ?thesis
      by (cases k) (simp_all add: callSettles_def oneshot_inv_def finish_def Let_def)
  qed
qed



lemma resolver_step_oneshot_frame:
  assumes "isChange e \<or> isTick e \<or> isLookupSettlement e"
  shows "pending (step tr e s) = pending s \<and> isLoading (step tr e s) = isLoading s"
proof (cases e)
  case (SetLocationText v)
  then show ?thesis
    by (simp add: setLocationText_def onQueryChange_def useEffect_locationText_def
        clearTimeout_def setTimeout_def Let_def split: option.splits)
next
  case (Tick d)
  then show ?thesis by (simp add: tick_def fold_fire Let_def)
next
  case (LookupSettles h outcome)
  then show ?thesis
    by (simp add: lookupSettles_def Let_def split: option.splits settled.splits)
qed (use assms in simp_all)

lemma oneshot_inv_step:
  assumes "oneshot_inv s" and "\<not> isVoice e"
  shows "oneshot_inv (step tr e s)"
proof (cases "isChange e \<or> isTick e \<or> isLookupSettlement e")
  case True
  from resolver_step_oneshot_frame[OF True, of tr s] assms(1) show ?thesis
    by (simp add: oneshot_inv_def)
next
  case False
  show ?thesis
  proof (cases e)
    case ClickAdvice
    with assms(1) show ?thesis
      by (cases "weatherData s")
         (auto simp add: oneshot_inv_def clickAdvice_def adviceButtonEnabled_def
            handleGetCropAdvice_def startCall_def)
  next
    case ClickAnalyze
    with assms(1) show ?thesis
      by (cases "imageFile s")
         (auto simp add: oneshot_inv_def clickAnalyze_def analyzeButtonEnabled_def
            handleImageAnalysis_def startCall_def)
  next
    case (CallSettles c outcome)
    with assms(1) show ?thesis by (simp add: oneshot_inv_settles)
  qed (use assms False in \<open>simp_all add: oneshot_inv_def\<close>)
qed

lemma oneshot_inv_run: "oneshot_inv s \<Longrightarrow> noVoice es \<Longrightarrow> oneshot_inv (run tr es s)"
  by (induction es arbitrary: s) (simp_all add: noVoice_def oneshot_inv_step)

text \<open>
  C8, as the code has it. When the call a one-shot handler awaits is rejected, the result
  slot becomes the localized label of the flow (advice or photo), a space and a line feed,
  the localized word for details, a colon and a space, and then the message of the thrown
  value if it is an instance of \<open>Error\<close> (whatever the message, also the empty one), and the
  localized generic error text if it is any other value (whether or not that value has a
  message of its own). The language is the one selected when the handler started. The
  loading flag is false afterwards.
\<close>

theorem one_shot_failure_text:
  "(map_of (pending s) c = Some (GenerateCropAdvice lang loc w sc) \<longrightarrow>
      result (callSettles tr c (Rejected e) s) =
        Some (tr lang AdviceError @ [0x20, 0x0A] @ tr lang Details @ [0x3A, 0x20] @
              (case e of ErrorInstance m \<Rightarrow> m | NonError p \<Rightarrow> tr lang UnknownError)) \<and>
      \<not> isLoading (callSettles tr c (Rejected e) s)) \<and>
   (map_of (pending s) c = Some (FileToBase64 f lang loc) \<or>
    map_of (pending s) c = Some (GeneratePhotoAnalysis b64 lang loc) \<longrightarrow>
      result (callSettles tr c (Rejected e) s) =
        Some (tr lang PhotoError @ [0x20, 0x0A] @ tr lang Details @ [0x3A, 0x20] @
              (case e of ErrorInstance m \<Rightarrow> m | NonError p \<Rightarrow> tr lang UnknownError)) \<and>
      \<not> isLoading (callSettles tr c (Rejected e) s))"
  by (auto simp: callSettles_def finish_def failureText_def errorMessage_def Let_def)

theorem one_shot_failure_text_witness:
  "map_of (pending (run exampleTr [SetLocationText (utf16 ''Pune''), Tick 1500,
       LookupSettles 1 (Fulfilled loam), ClickAdvice] init)) 0
     = Some (GenerateCropAdvice (utf16 ''en'') (utf16 ''Pune'') loam Good) \<and>
   result (callSettles exampleTr 0 (Rejected (ErrorInstance (utf16 ''quota exceeded'')))
     (run exampleTr [SetLocationText (utf16 ''Pune''), Tick 1500,
       LookupSettles 1 (Fulfilled loam), ClickAdvice] init))
     = Some (utf16 ''Could not get crop advice.'' @ [0x20, 0x0A] @ utf16 ''Details: quota exceeded'') \<and>
   map_of (pending (run exampleTr [SelectFile (Some (File (utf16 ''leaf.jpg''))), ClickAnalyze] init)) 0
     = Some (FileToBase64 (File (utf16 ''leaf.jpg'')) (utf16 ''en'') []) \<and>
   result (callSettles exampleTr 0 (Rejected (NonError None))
     (run exampleTr [SelectFile (Some (File (utf16 ''leaf.jpg''))), ClickAnalyze] init))
     = Some (utf16 ''Could not analyze the photo.'' @ [0x20, 0x0A] @
             utf16 ''Details: An unknown error occurred.'')"
proof -
  let ?a = "run exampleTr [SetLocationText (utf16 ''Pune''), Tick 1500,
       LookupSettles 1 (Fulfilled loam), ClickAdvice] init"
  let ?b = "run exampleTr [SelectFile (Some (File (utf16 ''leaf.jpg''))), ClickAnalyze] init"
  have a: "map_of (pending ?a) 0 = Some (GenerateCropAdvice (utf16 ''en'') (utf16 ''Pune'') loam Good)"
    by (simp add: eval_defs eval_oneshot_defs)
  have b: "map_of (pending ?b) 0 = Some (FileToBase64 (File (utf16 ''leaf.jpg'')) (utf16 ''en'') [])"
    by (simp add: eval_defs eval_oneshot_defs)
  from one_shot_failure_text[where s = ?a and c = 0 and tr = exampleTr
      and e = "ErrorInstance (utf16 ''quota exceeded'')"] a
  have "result (callSettles exampleTr 0 (Rejected (ErrorInstance (utf16 ''quota exceeded''))) ?a)
     = Some (exampleTr (utf16 ''en'') AdviceError @ [0x20, 0x0A] @ exampleTr (utf16 ''en'') Details @
             [0x3A, 0x20] @ utf16 ''quota exceeded'')"
    by (simp del: run_Cons)
  then have ra: "result (callSettles exampleTr 0 (Rejected (ErrorInstance (utf16 ''quota exceeded''))) ?a)
     = Some (utf16 ''Could not get crop advice.'' @ [0x20, 0x0A] @ utf16 ''Details: quota exceeded'')"
    by (simp del: run_Cons add: exampleTr_def utf16_def)
  from one_shot_failure_text[where s = ?b and c = 0 and tr = exampleTr and e = "NonError None"] b
  have "result (callSettles exampleTr 0 (Rejected (NonError None)) ?b)
     = Some (exampleTr (utf16 ''en'') PhotoError @ [0x20, 0x0A] @ exampleTr (utf16 ''en'') Details @
             [0x3A, 0x20] @ exampleTr (utf16 ''en'') UnknownError)"
    by (simp del: run_Cons)
  then have rb: "result (callSettles exampleTr 0 (Rejected (NonError None)) ?b)
     = Some (utf16 ''Could not analyze the photo.'' @ [0x20, 0x0A] @
             utf16 ''Details: An unknown error occurred.'')"
    by (simp del: run_Cons add: exampleTr_def utf16_def)
  from a b ra rb show ?thesis by (simp del: run_Cons)
qed

text \<open>
  C8, as stated, fails on "exactly when the error lacks a message": a thrown value that is
  not an \<open>Error\<close> but has a message gets the generic text, and an \<open>Error\<close> with the empty
  message gets no generic text.
\<close>

theorem fallback_ignores_message:
  "result (run exampleTr [SetLocationText (utf16 ''Pune''), Tick 1500,
       LookupSettles 1 (Fulfilled loam), ClickAdvice,
       CallSettles 0 (Rejected (NonError (Some (utf16 ''quota exceeded''))))] init)
     = Some (utf16 ''Could not get crop advice.'' @ [0x20, 0x0A] @
             utf16 ''Details: An unknown error occurred.'') \<and>
   result (run exampleTr [SetLocationText (utf16 ''Pune''), Tick 1500,
       LookupSettles 1 (Fulfilled loam), ClickAdvice,
       CallSettles 0 (Rejected (ErrorInstance []))] init)
     = Some (utf16 ''Could not get crop advice.'' @ [0x20, 0x0A] @ utf16 ''Details: '')"
  by (simp add: eval_defs eval_oneshot_defs)

text \<open>
  C9, as the code has it. While the loading flag is set the advice button and the analysis
  button are disabled, and a click on either changes nothing: no call is started. In every
  run without events of the voice flow, at most one call of the one-shot flows awaits its
  result at any time, and the loading flag is set while one does.
\<close>

theorem one_shot_not_reentered:
  "(isLoading s \<longrightarrow>
      \<not> adviceButtonEnabled s \<and> \<not> analyzeButtonEnabled s \<and> clickAdvice s = s \<and> clickAnalyze s = s) \<and>
   (noVoice es \<longrightarrow>
      length (pending (run tr es init)) \<le> 1 \<and>
      (pending (run tr es init) \<noteq> [] \<longrightarrow> isLoading (run tr es init)))"
proof -
  have "oneshot_inv init" by (simp add: oneshot_inv_def init_def)
  then have "noVoice es \<Longrightarrow> oneshot_inv (run tr es init)" by (rule oneshot_inv_run)
  then show ?thesis
    by (auto simp: oneshot_inv_def clickAdvice_def clickAnalyze_def adviceButtonEnabled_def
        analyzeButtonEnabled_def)
qed


theorem one_shot_not_reentered_witness:
  "isLoading (run exampleTr [SetLocationText (utf16 ''Pune''), Tick 1500,
       LookupSettles 1 (Fulfilled loam), ClickAdvice] init) \<and>
   clickAdvice (run exampleTr [SetLocationText (utf16 ''Pune''), Tick 1500,
       LookupSettles 1 (Fulfilled loam), ClickAdvice] init)
     = run exampleTr [SetLocationText (utf16 ''Pune''), Tick 1500,
       LookupSettles 1 (Fulfilled loam), ClickAdvice] init \<and>
   noVoice [SetLocationText (utf16 ''Pune''), Tick 1500, LookupSettles 1 (Fulfilled loam),
       ClickAdvice, ClickAdvice, SelectFile (Some (File (utf16 ''leaf.jpg''))), ClickAnalyze] \<and>
   length (pending (run exampleTr [SetLocationText (utf16 ''Pune''), Tick 1500,
       LookupSettles 1 (Fulfilled loam), ClickAdvice, ClickAdvice,
       SelectFile (Some (File (utf16 ''leaf.jpg''))), ClickAnalyze] init)) \<le> 1 \<and>
   pending (run exampleTr [SetLocationText (utf16 ''Pune''), Tick 1500,
       LookupSettles 1 (Fulfilled loam), ClickAdvice, ClickAdvice,
       SelectFile (Some (File (utf16 ''leaf.jpg''))), ClickAnalyze] init) \<noteq> []"
proof -
  let ?s = "run exampleTr [SetLocationText (utf16 ''Pune''), Tick 1500,
       LookupSettles 1 (Fulfilled loam), ClickAdvice] init"
  let ?es = "[SetLocationText (utf16 ''Pune''), Tick 1500, LookupSettles 1 (Fulfilled loam),
       ClickAdvice, ClickAdvice, SelectFile (Some (File (utf16 ''leaf.jpg''))), ClickAnalyze]"
  have l: "isLoading ?s" by (simp add: eval_defs eval_oneshot_defs)
  have n: "noVoice ?es" by (simp add: noVoice_def)
  have p: "pending (run exampleTr ?es init) \<noteq> []" by (simp add: eval_defs eval_oneshot_defs)
  note claim = one_shot_not_reentered[where s = ?s and es = ?es and tr = exampleTr]
  from claim l have "clickAdvice ?s = ?s" by blast
  moreover from claim n have "length (pending (run exampleTr ?es init)) \<le> 1" by blast
  ultimately show ?thesis using l n p by (simp del: run_Cons)
qed

text \<open>
  C9, as stated, fails with the voice flow, whose button is disabled by \<open>isConnecting\<close> and
  not by the loading flag, and whose callback clears the loading flag that all flows share.
  Here advice is requested, the voice session starts and delivers its response, which
  clears the flag while the advice request still awaits its result, and a second click on
  the advice button starts a second request.
\<close>

theorem two_advice_requests_in_flight:
  "isLoading (run exampleTr [SetLocationText (utf16 ''Pune''), Tick 1500,
       LookupSettles 1 (Fulfilled loam), ClickAdvice] init) \<and>
   voiceButtonEnabled (run exampleTr [SetLocationText (utf16 ''Pune''), Tick 1500,
       LookupSettles 1 (Fulfilled loam), ClickAdvice] init) \<and>
   pending (run exampleTr [SetLocationText (utf16 ''Pune''), Tick 1500,
       LookupSettles 1 (Fulfilled loam), ClickAdvice, ClickVoice, VoiceConnected,
       VoiceFinalResponse (utf16 ''Sow after the first rain.''), ClickAdvice] init)
     = [(0, GenerateCropAdvice (utf16 ''en'') (utf16 ''Pune'') loam Good),
        (1, GenerateCropAdvice (utf16 ''en'') (utf16 ''Pune'') loam Good)]"
  by (simp add: eval_defs eval_oneshot_defs)

text \<open>
  C10. \<open>handleGetCropAdvice\<close> called while there is no weather record, and
  \<open>handleImageAnalysis\<close> called while no file is selected, return the state they were
  given: no call is started, and the result slot, the loading flag and everything else are
  unchanged.
\<close>

theorem unmet_precondition_is_noop:
  "(weatherData s = None \<longrightarrow> handleGetCropAdvice s = s) \<and>
   (imageFile s = None \<longrightarrow> handleImageAnalysis s = s)"
  by (simp add: handleGetCropAdvice_def handleImageAnalysis_def)

theorem unmet_precondition_is_noop_witness:
  "weatherData (run exampleTr [SelectFile (Some (File (utf16 ''leaf.jpg''))), ClickAnalyze] init) = None \<and>
   handleGetCropAdvice (run exampleTr [SelectFile (Some (File (utf16 ''leaf.jpg''))), ClickAnalyze] init)
     = run exampleTr [SelectFile (Some (File (utf16 ''leaf.jpg''))), ClickAnalyze] init \<and>
   imageFile (run exampleTr [SetLocationText (utf16 ''Pune''), Tick 1500,
       LookupSettles 1 (Fulfilled loam), ClickAdvice] init) = None \<and>
   handleImageAnalysis (run exampleTr [SetLocationText (utf16 ''Pune''), Tick 1500,
       LookupSettles 1 (Fulfilled loam), ClickAdvice] init)
     = run exampleTr [SetLocationText (utf16 ''Pune''), Tick 1500,
       LookupSettles 1 (Fulfilled loam), ClickAdvice] init"
proof -
  let ?a = "run exampleTr [SelectFile (Some (File (utf16 ''leaf.jpg''))), ClickAnalyze] init"
  let ?b = "run exampleTr [SetLocationText (utf16 ''Pune''), Tick 1500,
       LookupSettles 1 (Fulfilled loam), ClickAdvice] init"
  have a: "weatherData ?a = None"
    by (simp add: eval_defs eval_oneshot_defs)
  have b: "imageFile ?b = None"
    by (simp add: eval_defs eval_oneshot_defs)
  from unmet_precondition_is_noop[of ?a] a have "handleGetCropAdvice ?a = ?a" by blast
  moreover from unmet_precondition_is_noop[of ?b] b have "handleImageAnalysis ?b = ?b" by blast
  ultimately show ?thesis using a b by (simp del: run_Cons)
qed

end
